theory Spec2Isabelle
  imports Main "HOL-Library.Word" "HOL-Library.List_Lexorder"
begin

section \<open>Keys, composite keys and the ordered store\<close>

text \<open>
  Modelled from the spec: the key ordering of the index sublevels (charwise) is a library
  the repository only imports; the glossary of the spec gives the order of composite
  keys as lexicographic, derived value first.

  A JavaScript string is a sequence of UTF-16 code units. Primary keys and index values
  are taken to be strings (the source types them \<open>any\<close>); a composite key is the
  array \<open>[indexValue, key]\<close>. Arrays are compared element by element and strings code
  unit by code unit, a proper prefix sorting first: the order of \<open>List_Lexorder\<close>.
  The order on strings is an assumption of this model, the spec being silent on it; the
  general properties below do not depend on it, and the example runs use it on short
  ASCII keys and on a key equal to a scan bound only.
\<close>

type_synonym jsstring = "16 word list"

type_synonym compositeKey = "jsstring list"

text \<open>The high-value constant of \<open>query\<close> (line 174): the string of the one code unit
  0xFFFF.\<close>

definition uffff :: jsstring where
  "uffff = [0xFFFF]"

text \<open>
  Modelled from the spec: the ordered key-value store (abstract-level) is a library the
  repository only imports; section 6 of the spec gives its contract (get, getMany, an
  atomic batch of puts and deletes, an ordered iteration between two exclusive bounds).

  A sublevel is its entries in ascending key order. \<open>sub_put\<close> overwrites the entry of
  an equal key, \<open>sub_del\<close> removes it, \<open>sub_get\<close> reads it (\<open>None\<close> is JavaScript's
  \<open>undefined\<close>), \<open>iterator\<close> yields the entries strictly between \<open>gt\<close> and \<open>lt\<close>
  in order.
\<close>

fun sub_put :: "'k::linorder \<Rightarrow> 'a \<Rightarrow> ('k \<times> 'a) list \<Rightarrow> ('k \<times> 'a) list" where
  "sub_put k a [] = [(k, a)]"
| "sub_put k a ((k', a') # es) =
     (if k < k' then (k, a) # (k', a') # es
      else if k = k' then (k, a) # es
      else (k', a') # sub_put k a es)"

definition sub_del :: "'k \<Rightarrow> ('k \<times> 'a) list \<Rightarrow> ('k \<times> 'a) list" where
  "sub_del k es = filter (\<lambda>e. fst e \<noteq> k) es"

definition sub_get :: "('k \<times> 'a) list \<Rightarrow> 'k \<Rightarrow> 'a option" where
  "sub_get es k = map_of es k"

definition iterator :: "'k::linorder \<Rightarrow> 'k \<Rightarrow> ('k \<times> 'a) list \<Rightarrow> ('k \<times> 'a) list" where
  "iterator gt lt es = filter (\<lambda>e. gt < fst e \<and> fst e < lt) es"

text \<open>
  The database: the main sublevel of the collection and one sublevel per index. The
  constructor names the sublevel of index \<open>name\<close> \<open>"idx_" + prefix + "_" + name\<close>, which
  is injective in \<open>name\<close>, so the index sublevels are addressed by index name.
\<close>

record 'v database =
  main :: "(jsstring \<times> 'v) list"
  index_sub :: "string \<Rightarrow> (compositeKey \<times> jsstring) list"

definition empty_database :: "'v database" where
  "empty_database = \<lparr>main = [], index_sub = (\<lambda>name. [])\<rparr>"

text \<open>Modelled from the spec: a chained batch is the list of its staged operations, each
  routed to the main sublevel or to the sublevel of an index; \<open>batch_write\<close> commits them
  in order, as one unit.\<close>

datatype 'v operation =
    Put_main jsstring 'v
  | Del_main jsstring
  | Put_index string compositeKey jsstring
  | Del_index string compositeKey

fun apply_operation :: "'v operation \<Rightarrow> 'v database \<Rightarrow> 'v database" where
  "apply_operation (Put_main key value) s = s\<lparr>main := sub_put key value (main s)\<rparr>"
| "apply_operation (Del_main key) s = s\<lparr>main := sub_del key (main s)\<rparr>"
| "apply_operation (Put_index name ck payload) s =
     s\<lparr>index_sub := (index_sub s)(name := sub_put ck payload (index_sub s name))\<rparr>"
| "apply_operation (Del_index name ck) s =
     s\<lparr>index_sub := (index_sub s)(name := sub_del ck (index_sub s name))\<rparr>"

definition batch_write :: "'v operation list \<Rightarrow> 'v database \<Rightarrow> 'v database" where
  "batch_write batch s = fold apply_operation batch s"

section \<open>The indexed sublevel\<close>

text \<open>
  What a method can throw: the \<open>Error\<close> of \<open>query\<close> for an index that is not defined,
  the \<open>TypeError\<close> of reading a property of \<open>undefined\<close>, the store's rejection of an
  \<open>undefined\<close> key, and whatever a user's getter throws.
\<close>

datatype error =
    Index_not_defined string
  | Type_error
  | Invalid_key
  | Getter_threw string

text \<open>
  An entry of \<open>this.indexes\<close>. The getter returns the index value, \<open>None\<close> for
  \<open>undefined\<close>, or throws. \<open>this.indexes\<close> is the list of its own properties in the
  order \<open>Object.values\<close> enumerates them.
\<close>

record 'v config =
  getter :: "'v \<Rightarrow> error + jsstring option"

type_synonym 'v indexes = "(string \<times> 'v config) list"

text \<open>
  \<open>put\<close>, lines 108 to 124. The batch is created and the main put staged (line 112)
  before the loop calls the first getter; a getter that throws leaves the loop and the
  method, and \<open>batch.write()\<close> (line 123) is never reached. \<open>put_indexes\<close> is the loop:
  it returns the batch as staged so far and the exception, if one was thrown.
\<close>

fun put_indexes ::
  "'v indexes \<Rightarrow> jsstring \<Rightarrow> 'v \<Rightarrow> 'v operation list \<Rightarrow> 'v operation list \<times> error option" where
  "put_indexes [] key value batch = (batch, None)"
| "put_indexes ((name, config) # rest) key value batch =
     (case getter config value of
        Inl e \<Rightarrow> (batch, Some e)
      | Inr None \<Rightarrow> put_indexes rest key value batch
      | Inr (Some indexValue) \<Rightarrow>
          put_indexes rest key value (batch @ [Put_index name [indexValue, key] []]))"

definition put_batch :: "'v indexes \<Rightarrow> jsstring \<Rightarrow> 'v \<Rightarrow> 'v operation list \<times> error option" where
  "put_batch indexes key value = put_indexes indexes key value [Put_main key value]"

definition put :: "'v indexes \<Rightarrow> jsstring \<Rightarrow> 'v \<Rightarrow> 'v database \<Rightarrow> (error + unit) \<times> 'v database" where
  "put indexes key value s =
     (case put_batch indexes key value of
        (batch, Some e) \<Rightarrow> (Inl e, s)
      | (batch, None) \<Rightarrow> (Inr (), batch_write batch s))"

text \<open>\<open>this.get(key)\<close> on the main sublevel.\<close>

definition get :: "'v database \<Rightarrow> jsstring \<Rightarrow> 'v option" where
  "get s key = sub_get (main s) key"

text \<open>
  \<open>del\<close>, lines 134 to 154. \<open>del_batch\<close> is the batch as it stands when the method
  writes it or a getter throws: none at all (\<open>None\<close>) on the early return for a key that
  is not there; otherwise the main delete, then one delete per index whose getter is
  defined on the old value (the loop \<open>del_indexes\<close>).
\<close>

fun del_indexes ::
  "'v indexes \<Rightarrow> jsstring \<Rightarrow> 'v \<Rightarrow> 'v operation list \<Rightarrow> 'v operation list \<times> error option" where
  "del_indexes [] key oldValue batch = (batch, None)"
| "del_indexes ((name, config) # rest) key oldValue batch =
     (case getter config oldValue of
        Inl e \<Rightarrow> (batch, Some e)
      | Inr None \<Rightarrow> del_indexes rest key oldValue batch
      | Inr (Some indexValue) \<Rightarrow>
          del_indexes rest key oldValue (batch @ [Del_index name [indexValue, key]]))"

definition del_batch ::
  "'v indexes \<Rightarrow> jsstring \<Rightarrow> 'v database \<Rightarrow> ('v operation list \<times> error option) option" where
  "del_batch indexes key s =
     (case get s key of
        None \<Rightarrow> None
      | Some oldValue \<Rightarrow> Some (del_indexes indexes key oldValue [Del_main key]))"

definition del :: "'v indexes \<Rightarrow> jsstring \<Rightarrow> 'v database \<Rightarrow> (error + unit) \<times> 'v database" where
  "del indexes key s =
     (case del_batch indexes key s of
        None \<Rightarrow> (Inr (), s)
      | Some (batch, Some e) \<Rightarrow> (Inl e, s)
      | Some (batch, None) \<Rightarrow> (Inr (), batch_write batch s))"

text \<open>
  \<open>this.indexes[indexName]\<close>, line 167. \<open>this.indexes\<close> starts as the object literal
  \<open>{}\<close> (line 37), so a name that is not an own property is looked up on
  \<open>Object.prototype\<close>: for its members the read gives a function (or, for \<open>__proto__\<close>,
  the prototype object), which is truthy and has no \<open>sublevel\<close> property. So the
  test \<open>!config\<close> of line 168 holds of \<open>Undefined\<close> only, and on \<open>Inherited\<close> the read
  of \<open>config.sublevel.iterator\<close> (line 177) throws a \<open>TypeError\<close>. (An index that is
  itself named \<open>__proto__\<close> would replace the prototype; no such index is considered.)
\<close>

definition object_prototype :: "string list" where
  "object_prototype =
     [''constructor'', ''hasOwnProperty'', ''isPrototypeOf'', ''propertyIsEnumerable'',
      ''toLocaleString'', ''toString'', ''valueOf'', ''__proto__'',
      ''__defineGetter__'', ''__defineSetter__'', ''__lookupGetter__'', ''__lookupSetter__'']"

datatype 'v property = Undefined | Inherited | Own "'v config"

definition index_property :: "'v indexes \<Rightarrow> string \<Rightarrow> 'v property" where
  "index_property indexes indexName =
     (case map_of indexes indexName of
        Some config \<Rightarrow> Own config
      | None \<Rightarrow> if indexName \<in> set object_prototype then Inherited else Undefined)"

text \<open>\<open>compositeKey[1]\<close>, line 182: \<open>undefined\<close> on an array shorter than two.\<close>

fun compositeKey1 :: "compositeKey \<Rightarrow> jsstring option" where
  "compositeKey1 (indexValue # key # rest) = Some key"
| "compositeKey1 ck = None"

text \<open>Modelled from the spec: the store's \<open>getMany\<close>, one result per key, in order,
  \<open>None\<close> for a key that is not there; it rejects an \<open>undefined\<close> key.\<close>

fun getMany :: "(jsstring \<times> 'v) list \<Rightarrow> jsstring option list \<Rightarrow> error + 'v option list" where
  "getMany es [] = Inr []"
| "getMany es (None # keys) = Inl Invalid_key"
| "getMany es (Some key # keys) =
     (case getMany es keys of
        Inl e \<Rightarrow> Inl e
      | Inr records \<Rightarrow> Inr (sub_get es key # records))"

text \<open>The loop of lines 173 to 183: the keys of the entries between \<open>[value]\<close> and
  \<open>[value, uffff]\<close>, both exclusive.\<close>

definition scan :: "'v database \<Rightarrow> string \<Rightarrow> jsstring \<Rightarrow> jsstring option list" where
  "scan s indexName value =
     (let lowerBound = [value];
          upperBound = [value, uffff]
      in map (\<lambda>e. compositeKey1 (fst e)) (iterator lowerBound upperBound (index_sub s indexName)))"

text \<open>\<open>query\<close>, lines 166 to 188. It only reads: the database comes back as it was.\<close>

definition query ::
  "'v indexes \<Rightarrow> string \<Rightarrow> jsstring \<Rightarrow> 'v database \<Rightarrow> (error + 'v list) \<times> 'v database" where
  "query indexes indexName value s =
     (case index_property indexes indexName of
        Undefined \<Rightarrow> (Inl (Index_not_defined indexName), s)
      | Inherited \<Rightarrow> (Inl Type_error, s)
      | Own config \<Rightarrow>
          (let keys = scan s indexName value
           in if keys = [] then (Inr [], s)
              else (case getMany (main s) keys of
                      Inl e \<Rightarrow> (Inl e, s)
                    | Inr records \<Rightarrow> (Inr (List.map_filter (\<lambda>record. record) records), s))))"

section \<open>Invariants and example inputs\<close>

text \<open>
  What the store and \<open>put\<close> maintain for a sublevel: the entries are in strictly
  ascending key order, and (for an index sublevel) every key is a two-element array, as
  line 118 builds it.
\<close>

definition ascending :: "('k::linorder \<times> 'a) list \<Rightarrow> bool" where
  "ascending es = sorted_wrt (<) (map fst es)"

definition index_ok :: "(compositeKey \<times> jsstring) list \<Rightarrow> bool" where
  "index_ok es = (ascending es \<and> list_all (\<lambda>e. length (fst e) = 2) es)"

text \<open>Which staged operations are puts, and which go to an index sublevel.\<close>

fun is_put :: "'v operation \<Rightarrow> bool" where
  "is_put (Put_main key value) = True"
| "is_put (Put_index name ck payload) = True"
| "is_put (Del_main key) = False"
| "is_put (Del_index name ck) = False"

fun on_index :: "'v operation \<Rightarrow> bool" where
  "on_index (Put_index name ck payload) = True"
| "on_index (Del_index name ck) = True"
| "on_index (Put_main key value) = False"
| "on_index (Del_main key) = False"

text \<open>
  Example collections. Records are strings; \<open>by_value\<close> indexes a record under
  itself and leaves the empty record out, \<open>throwing\<close> is a getter that throws.
\<close>

definition by_value :: "jsstring config" where
  "by_value = \<lparr>getter = (\<lambda>record. if record = [] then Inr None else Inr (Some record))\<rparr>"


definition one_index :: "jsstring indexes" where
  "one_index = [(''byValue'', by_value)]"

text \<open>The strings \<open>"a"\<close>, \<open>"ab"\<close>, \<open>"b"\<close>, \<open>"k1"\<close> and \<open>"k2"\<close>.\<close>

definition str_a :: jsstring where
  "str_a = [0x61]"

definition str_ab :: jsstring where
  "str_ab = [0x61, 0x62]"

definition str_b :: jsstring where
  "str_b = [0x62]"

definition key_k1 :: jsstring where
  "key_k1 = [0x6B, 0x31]"

definition key_k2 :: jsstring where
  "key_k2 = [0x6B, 0x32]"

text \<open>The collection after \<open>put("k1", "a")\<close>, and after \<open>put("k2", "ab")\<close> as well.\<close>

definition db1 :: "jsstring database" where
  "db1 = snd (put one_index key_k1 str_a empty_database)"

definition db2 :: "jsstring database" where
  "db2 = snd (put one_index key_k2 str_ab db1)"

text \<open>And after \<open>del("k1")\<close>.\<close>

definition db3 :: "jsstring database" where
  "db3 = snd (del one_index key_k1 db2)"

text \<open>The collection after \<open>put("k1", "a")\<close> and then \<open>put("k1", "b")\<close>.\<close>

definition db4 :: "jsstring database" where
  "db4 = snd (put one_index key_k1 str_b db1)"

text \<open>The collection after \<open>put(uffff, "a")\<close>: the key is the high-value constant.\<close>

definition db5 :: "jsstring database" where
  "db5 = snd (put one_index uffff str_a empty_database)"

text \<open>The collection after \<open>put("k2", "a")\<close>, then \<open>put("k2", "ab")\<close>, then
  \<open>put("k1", "a")\<close>.\<close>

definition db6 :: "jsstring database" where
  "db6 = snd (put one_index key_k2 str_a empty_database)"

definition db7 :: "jsstring database" where
  "db7 = snd (put one_index key_k2 str_ab db6)"

definition db8 :: "jsstring database" where
  "db8 = snd (put one_index key_k1 str_a db7)"

section \<open>Facts about the store\<close>

lemma map_of_sub_put: "map_of (sub_put k a es) = (map_of es)(k \<mapsto> a)"
  by (induction es) (auto simp: fun_eq_iff)

lemma sub_get_sub_put: "sub_get (sub_put k a es) k' = (if k' = k then Some a else sub_get es k')"
  by (simp add: sub_get_def map_of_sub_put)

lemma sub_get_sub_del: "sub_get (sub_del k es) k' = (if k' = k then None else sub_get es k')"
  unfolding sub_get_def sub_del_def by (induction es) auto

lemma keys_sub_put: "fst ` set (sub_put k a es) = insert k (fst ` set es)"
proof -
  have "dom (map_of (sub_put k a es)) = insert k (dom (map_of es))"
    by (simp add: map_of_sub_put)
  then show ?thesis by (simp add: dom_map_of_conv_image_fst)
qed

lemma ascending_sub_put: "ascending es \<Longrightarrow> ascending (sub_put k a es)"
  unfolding ascending_def
proof (induction es)
  case Nil
  then show ?case by simp
next
  case (Cons e es)
  obtain k' a' where e: "e = (k', a')" by (cases e)
  show ?case using Cons by (auto simp: e keys_sub_put)
qed

lemma ascending_sub_del: "ascending es \<Longrightarrow> ascending (sub_del k es)"
  unfolding ascending_def sub_del_def
  by (induction es) auto

lemma ascending_distinct: "ascending es \<Longrightarrow> distinct (map fst es)"
  unfolding ascending_def by (simp add: strict_sorted_iff)

lemma sub_get_Some_iff: "ascending es \<Longrightarrow> sub_get es k = Some a \<longleftrightarrow> (k, a) \<in> set es"
  unfolding sub_get_def by (auto dest: ascending_distinct)

lemma sub_get_None_iff: "sub_get es k = None \<longleftrightarrow> k \<notin> fst ` set es"
  unfolding sub_get_def by (simp add: map_of_eq_None_iff)

lemma index_ok_sub_put: "index_ok es \<Longrightarrow> length ck = 2 \<Longrightarrow> index_ok (sub_put ck p es)"
proof -
  assume ok: "index_ok es" and len: "length ck = 2"
  have "\<forall>c \<in> fst ` set (sub_put ck p es). length c = 2"
    using ok len by (auto simp: keys_sub_put index_ok_def list_all_iff)
  then show ?thesis
    using ok by (auto simp: index_ok_def list_all_iff ascending_sub_put)
qed

lemma index_ok_sub_del: "index_ok es \<Longrightarrow> index_ok (sub_del ck es)"
  using ascending_sub_del [of es ck]
  by (auto simp: index_ok_def list_all_iff sub_del_def)

lemma in_range_iff:
  "[value] < ck \<and> ck < [value, hi] \<longleftrightarrow> (\<exists>k rest. ck = value # k # rest \<and> k < hi)"
  for ck :: "'a::linorder list"
proof (cases ck)
  case Nil
  then show ?thesis by simp
next
  case (Cons c cs)
  show ?thesis
  proof (cases cs)
    case Nil
    with Cons show ?thesis by auto
  next
    case (Cons k rest)
    with \<open>ck = c # cs\<close> show ?thesis by auto
  qed
qed

section \<open>Facts about batches\<close>

lemma main_fold_on_index:
  "\<forall>op \<in> set ops. on_index op \<Longrightarrow> main (fold apply_operation ops s) = main s"
proof (induction ops arbitrary: s)
  case Nil
  then show ?case by simp
next
  case (Cons op ops)
  then show ?case by (cases op) auto
qed

lemma put_indexes_staged:
  "put_indexes ixs key value batch = (batch', r) \<Longrightarrow>
   \<exists>ops. batch' = batch @ ops \<and>
     (\<forall>op \<in> set ops. \<exists>name config iv. op = Put_index name [iv, key] [] \<and>
        (name, config) \<in> set ixs \<and> getter config value = Inr (Some iv))"
proof (induction ixs arbitrary: batch)
  case Nil
  then show ?case by simp
next
  case (Cons i ixs)
  obtain name config where i: "i = (name, config)" by (cases i)
  show ?case
  proof (cases "getter config value")
    case (Inl e)
    with Cons.prems i show ?thesis by simp
  next
    case (Inr iv)
    show ?thesis
    proof (cases iv)
      case None
      with Cons.prems i Inr have "put_indexes ixs key value batch = (batch', r)" by simp
      from Cons.IH [OF this] show ?thesis by fastforce
    next
      case (Some indexValue)
      with Cons.prems i Inr
      have "put_indexes ixs key value (batch @ [Put_index name [indexValue, key] []]) = (batch', r)"
        by simp
      from Cons.IH [OF this] obtain ops where
        ops: "batch' = (batch @ [Put_index name [indexValue, key] []]) @ ops"
        and all: "\<forall>op \<in> set ops. \<exists>name config iv. op = Put_index name [iv, key] [] \<and>
           (name, config) \<in> set ixs \<and> getter config value = Inr (Some iv)"
        by blast
      have "\<forall>op \<in> set (Put_index name [indexValue, key] [] # ops).
          \<exists>name config iv. op = Put_index name [iv, key] [] \<and>
           (name, config) \<in> set (i # ixs) \<and> getter config value = Inr (Some iv)"
        using all i Inr Some by fastforce
      with ops show ?thesis by (intro exI [of _ "Put_index name [indexValue, key] [] # ops"]) simp
    qed
  qed
qed

lemma put_indexes_keeps:
  "put_indexes ixs key value batch = (batch', r) \<Longrightarrow> op \<in> set batch \<Longrightarrow> op \<in> set batch'"
  using put_indexes_staged by fastforce

lemma put_indexes_complete:
  "put_indexes ixs key value batch = (batch', None) \<Longrightarrow> (name, config) \<in> set ixs \<Longrightarrow>
   getter config value = Inr (Some iv) \<Longrightarrow> Put_index name [iv, key] [] \<in> set batch'"
proof (induction ixs arbitrary: batch)
  case Nil
  then show ?case by simp
next
  case (Cons i ixs)
  obtain n c where i: "i = (n, c)" by (cases i)
  show ?case
  proof (cases "getter c value")
    case (Inl e)
    with Cons.prems i show ?thesis by simp
  next
    case (Inr r)
    show ?thesis
    proof (cases r)
      case None
      with Cons.prems i Inr have rest: "put_indexes ixs key value batch = (batch', None)" by simp
      from Cons.prems i Inr None have "(name, config) \<in> set ixs" by auto
      with Cons.IH [OF rest] Cons.prems show ?thesis by simp
    next
      case (Some indexValue)
      with Cons.prems i Inr
      have rest: "put_indexes ixs key value (batch @ [Put_index n [indexValue, key] []]) = (batch', None)"
        by simp
      show ?thesis
      proof (cases "(name, config) = (n, c)")
        case True
        with Inr Some Cons.prems have "Put_index name [iv, key] [] \<in> set (batch @ [Put_index n [indexValue, key] []])"
          by simp
        with rest show ?thesis by (rule put_indexes_keeps)
      next
        case False
        with Cons.prems i have "(name, config) \<in> set ixs" by auto
        with Cons.IH [OF rest] Cons.prems show ?thesis by simp
      qed
    qed
  qed
qed



lemma index_sub_fold_puts:
  "\<forall>op \<in> set ops. \<exists>name ck. op = Put_index name ck [] \<Longrightarrow>
   sub_get (index_sub (fold apply_operation ops s) n) ck =
     (if Put_index n ck [] \<in> set ops then Some [] else sub_get (index_sub s n) ck)"
proof (induction ops arbitrary: s)
  case Nil
  then show ?case by simp
next
  case (Cons op ops)
  then obtain name ck' where op: "op = Put_index name ck' []" by auto
  from Cons.prems have rest: "\<forall>op \<in> set ops. \<exists>name ck. op = Put_index name ck []" by simp
  show ?case
    using Cons.IH [OF rest, of "apply_operation op s"]
    by (auto simp: op sub_get_sub_put)
qed

lemma index_ok_fold_puts:
  "\<forall>op \<in> set ops. \<exists>name iv key. op = Put_index name [iv, key] [] \<Longrightarrow>
   index_ok (index_sub s n) \<Longrightarrow> index_ok (index_sub (fold apply_operation ops s) n)"
proof (induction ops arbitrary: s)
  case Nil
  then show ?case by simp
next
  case (Cons op ops)
  then obtain name iv key where op: "op = Put_index name [iv, key] []" by auto
  from Cons.prems have rest: "\<forall>op \<in> set ops. \<exists>name iv key. op = Put_index name [iv, key] []"
    by simp
  have "index_ok (index_sub (apply_operation op s) n)"
    using Cons.prems(2) by (auto simp: op index_ok_sub_put)
  from Cons.IH [OF rest this] show ?case by simp
qed

text \<open>What a put that returns has done.\<close>

lemma put_returns:
  assumes "put indexes key value s = (Inr (), s')"
  shows "main s' = sub_put key value (main s)"
    and "sub_get (index_sub s' n) ck =
      (if \<exists>config iv. (n, config) \<in> set indexes \<and> getter config value = Inr (Some iv) \<and>
            ck = [iv, key]
       then Some [] else sub_get (index_sub s n) ck)"
    and "index_ok (index_sub s n) \<Longrightarrow> index_ok (index_sub s' n)"
proof -
  from assms obtain batch where b: "put_batch indexes key value = (batch, None)"
    and s': "s' = batch_write batch s"
    by (auto simp: put_def split: prod.splits option.splits)
  from b have pi: "put_indexes indexes key value [Put_main key value] = (batch, None)"
    by (simp add: put_batch_def)
  from put_indexes_staged [OF pi] obtain ops where
    batch: "batch = Put_main key value # ops"
    and ops: "\<forall>op \<in> set ops. \<exists>name config iv. op = Put_index name [iv, key] [] \<and>
        (name, config) \<in> set indexes \<and> getter config value = Inr (Some iv)"
    by auto
  let ?s0 = "apply_operation (Put_main key value) s"
  have s'_eq: "s' = fold apply_operation ops ?s0"
    by (simp add: s' batch batch_write_def)
  have on: "\<forall>op \<in> set ops. on_index op" using ops by fastforce
  show "main s' = sub_put key value (main s)"
    by (simp add: s'_eq main_fold_on_index [OF on])
  have puts: "\<forall>op \<in> set ops. \<exists>name ck. op = Put_index name ck []" using ops by fastforce
  have mem: "Put_index n ck [] \<in> set ops \<longleftrightarrow>
      (\<exists>config iv. (n, config) \<in> set indexes \<and> getter config value = Inr (Some iv) \<and> ck = [iv, key])"
  proof
    assume "Put_index n ck [] \<in> set ops"
    with ops show "\<exists>config iv. (n, config) \<in> set indexes \<and> getter config value = Inr (Some iv) \<and> ck = [iv, key]"
      by fastforce
  next
    assume "\<exists>config iv. (n, config) \<in> set indexes \<and> getter config value = Inr (Some iv) \<and> ck = [iv, key]"
    then obtain config iv where "(n, config) \<in> set indexes" "getter config value = Inr (Some iv)"
      "ck = [iv, key]" by blast
    with put_indexes_complete [OF pi] have "Put_index n ck [] \<in> set batch" by simp
    then show "Put_index n ck [] \<in> set ops" by (simp add: batch)
  qed
  show "sub_get (index_sub s' n) ck =
      (if \<exists>config iv. (n, config) \<in> set indexes \<and> getter config value = Inr (Some iv) \<and>
            ck = [iv, key]
       then Some [] else sub_get (index_sub s n) ck)"
  proof -
    have "sub_get (index_sub s' n) ck =
        (if Put_index n ck [] \<in> set ops then Some [] else sub_get (index_sub s n) ck)"
      using index_sub_fold_puts [OF puts, of ?s0 n ck] by (simp add: s'_eq)
    then show ?thesis by (simp only: mem)
  qed
  have pairs: "\<forall>op \<in> set ops. \<exists>name iv key. op = Put_index name [iv, key] []"
    using ops by fastforce
  show "index_ok (index_sub s n) \<Longrightarrow> index_ok (index_sub s' n)"
    unfolding s'_eq by (rule index_ok_fold_puts [OF pairs]) simp
qed

lemma del_indexes_staged:
  "del_indexes ixs key oldValue batch = (batch', r) \<Longrightarrow>
   \<exists>ops. batch' = batch @ ops \<and> (\<forall>op \<in> set ops. \<exists>name ck. op = Del_index name ck)"
proof (induction ixs arbitrary: batch)
  case Nil
  then show ?case by simp
next
  case (Cons i ixs)
  obtain name config where i: "i = (name, config)" by (cases i)
  show ?case
  proof (cases "getter config oldValue")
    case (Inl e)
    with Cons.prems i show ?thesis by simp
  next
    case (Inr iv)
    show ?thesis
    proof (cases iv)
      case None
      with Cons.prems i Inr have "del_indexes ixs key oldValue batch = (batch', r)" by simp
      from Cons.IH [OF this] show ?thesis .
    next
      case (Some indexValue)
      with Cons.prems i Inr
      have "del_indexes ixs key oldValue (batch @ [Del_index name [indexValue, key]]) = (batch', r)"
        by simp
      from Cons.IH [OF this] obtain ops where
        "batch' = (batch @ [Del_index name [indexValue, key]]) @ ops"
        "\<forall>op \<in> set ops. \<exists>name ck. op = Del_index name ck"
        by blast
      then show ?thesis
        by (intro exI [of _ "Del_index name [indexValue, key] # ops"]) simp
    qed
  qed
qed

lemma index_ok_fold_dels:
  "\<forall>op \<in> set ops. \<exists>name ck. op = Del_index name ck \<Longrightarrow>
   index_ok (index_sub s n) \<Longrightarrow> index_ok (index_sub (fold apply_operation ops s) n)"
proof (induction ops arbitrary: s)
  case Nil
  then show ?case by simp
next
  case (Cons op ops)
  then obtain name ck where op: "op = Del_index name ck" by auto
  from Cons.prems have rest: "\<forall>op \<in> set ops. \<exists>name ck. op = Del_index name ck" by simp
  have "index_ok (index_sub (apply_operation op s) n)"
    using Cons.prems(2) by (auto simp: op index_ok_sub_del)
  from Cons.IH [OF rest this] show ?case by simp
qed

text \<open>What a del that returns has done to the main sublevel.\<close>

lemma del_returns:
  assumes "get s key = Some oldValue" and "del indexes key s = (Inr (), s')"
  shows "main s' = sub_del key (main s)"
proof -
  from assms obtain batch where b: "del_indexes indexes key oldValue [Del_main key] = (batch, None)"
    and s': "s' = batch_write batch s"
    by (auto simp: del_def del_batch_def split: prod.splits option.splits)
  from del_indexes_staged [OF b] obtain ops where
    "batch = Del_main key # ops" and dels: "\<forall>op \<in> set ops. \<exists>name ck. op = Del_index name ck"
    by auto
  then have "s' = fold apply_operation ops (apply_operation (Del_main key) s)"
    by (simp add: s' batch_write_def)
  moreover from dels have "\<forall>op \<in> set ops. on_index op" by fastforce
  ultimately show ?thesis by (simp add: main_fold_on_index)
qed

text \<open>
  \<open>index_ok\<close> is an invariant of the collection: it holds of the empty database, and
  \<open>put\<close> and \<open>del\<close> keep it, whatever they return.
\<close>

lemma index_ok_empty: "index_ok (index_sub empty_database name)"
  by (simp add: empty_database_def index_ok_def ascending_def)

lemma index_ok_put:
  assumes "index_ok (index_sub s name)"
  shows "index_ok (index_sub (snd (put indexes key value s)) name)"
proof (cases "put indexes key value s")
  case (Pair r s')
  show ?thesis
  proof (cases r)
    case (Inl e)
    with Pair have "s' = s"
      by (auto simp: put_def split: prod.splits option.splits)
    with Pair assms show ?thesis by simp
  next
    case (Inr u)
    with Pair have "put indexes key value s = (Inr (), s')" by simp
    from put_returns(3) [OF this assms] Pair show ?thesis by simp
  qed
qed

lemma index_ok_del:
  assumes "index_ok (index_sub s name)"
  shows "index_ok (index_sub (snd (del indexes key s)) name)"
proof (cases "del_batch indexes key s")
  case None
  with assms show ?thesis by (simp add: del_def)
next
  case (Some staged)
  obtain batch r where staged: "staged = (batch, r)" by (cases staged)
  show ?thesis
  proof (cases r)
    case (Some e)
    with \<open>del_batch indexes key s = Some staged\<close> staged assms show ?thesis
      by (simp add: del_def)
  next
    case None
    from \<open>del_batch indexes key s = Some staged\<close> staged obtain oldValue where
      "del_indexes indexes key oldValue [Del_main key] = (batch, r)"
      by (auto simp: del_batch_def split: option.splits)
    from del_indexes_staged [OF this] obtain ops where
      batch: "batch = Del_main key # ops"
      and dels: "\<forall>op \<in> set ops. \<exists>name ck. op = Del_index name ck"
      by auto
    have "index_ok (index_sub (apply_operation (Del_main key) s) name)"
      using assms by simp
    from index_ok_fold_dels [OF dels this]
    have "index_ok (index_sub (batch_write batch s) name)"
      by (simp add: batch_write_def batch)
    with \<open>del_batch indexes key s = Some staged\<close> staged None show ?thesis
      by (simp add: del_def)
  qed
qed

section \<open>Facts about queries\<close>

lemma scan_Some:
  "ko \<in> set (scan s name value) \<Longrightarrow> \<exists>key. ko = Some key \<and> key < uffff"
  unfolding scan_def Let_def iterator_def
  by (auto simp: in_range_iff)

lemma getMany_defined:
  "None \<notin> set keys \<Longrightarrow> getMany es keys = Inr (map (\<lambda>ko. Option.bind ko (sub_get es)) keys)"
proof (induction keys)
  case Nil
  then show ?case by simp
next
  case (Cons ko keys)
  then show ?case by (cases ko) auto
qed

lemma map_filter_skip:
  "f x = None \<Longrightarrow> List.map_filter f (filter (\<lambda>y. y \<noteq> x) xs) = List.map_filter f xs"
  by (induction xs) (auto split: option.splits)

lemma query_own:
  assumes "index_property indexes name = Own config"
  shows "query indexes name value s =
     (Inr (List.map_filter (\<lambda>ko. Option.bind ko (get s)) (scan s name value)), s)"
proof -
  have "None \<notin> set (scan s name value)" using scan_Some by fastforce
  from getMany_defined [OF this]
  have gm: "getMany (main s) (scan s name value) =
      Inr (map (\<lambda>ko. Option.bind ko (sub_get (main s))) (scan s name value))" .
  have get_eq: "get s = sub_get (main s)" by (simp add: fun_eq_iff get_def)
  have mf: "List.map_filter (\<lambda>record. record) (map f xs) = List.map_filter f xs" for f :: "'b \<Rightarrow> 'c option" and xs
    by (induction xs) (simp_all split: option.splits)
  show ?thesis
    by (simp add: query_def assms Let_def gm get_eq mf List.map_filter_simps)
qed

lemma index_property_own: "map_of indexes name = Some config \<Longrightarrow> index_property indexes name = Own config"
  by (simp add: index_property_def)

lemma query_registered:
  "map_of indexes name = Some config \<Longrightarrow>
   \<exists>rs. query indexes name value s = (Inr rs, s)"
  by (simp add: query_own [OF index_property_own])

lemma query_not_defined:
  "map_of indexes name = None \<Longrightarrow> name \<notin> set object_prototype \<Longrightarrow>
   query indexes name value s = (Inl (Index_not_defined name), s)"
  by (simp add: query_def index_property_def)

lemma query_inherited:
  "map_of indexes name = None \<Longrightarrow> name \<in> set object_prototype \<Longrightarrow>
   query indexes name value s = (Inl Type_error, s)"
  by (simp add: query_def index_property_def)

section \<open>Example runs\<close>

lemmas strings = str_a_def str_ab_def str_b_def key_k1_def key_k2_def uffff_def

lemmas run = put_def put_batch_def del_def del_batch_def batch_write_def get_def sub_get_def
  sub_del_def one_index_def by_value_def

lemma db1_eq:
  "db1 = \<lparr>main = [(key_k1, str_a)], index_sub = (\<lambda>name. [])(''byValue'' := [([str_a, key_k1], [])])\<rparr>"
  by (simp add: db1_def run empty_database_def strings)

lemma db2_eq:
  "db2 = \<lparr>main = [(key_k1, str_a), (key_k2, str_ab)],
     index_sub = (\<lambda>name. [])(''byValue'' := [([str_a, key_k1], []), ([str_ab, key_k2], [])])\<rparr>"
  by (simp add: db2_def db1_eq run strings)

lemma put_db1: "put one_index key_k2 str_ab db1 = (Inr (), db2)"
  by (simp add: db2_def) (simp add: run strings)

lemma del_db2: "del one_index key_k1 db2 = (Inr (), db3)"
  by (simp add: db3_def) (simp add: db2_eq run strings)

lemma db3_eq:
  "db3 = \<lparr>main = [(key_k2, str_ab)],
     index_sub = (\<lambda>name. [])(''byValue'' := [([str_ab, key_k2], [])])\<rparr>"
  by (simp add: db3_def db2_eq run strings)

lemma put_db1_again: "put one_index key_k1 str_b db1 = (Inr (), db4)"
  by (simp add: db4_def) (simp add: run strings)

lemma db4_eq:
  "db4 = \<lparr>main = [(key_k1, str_b)],
     index_sub = (\<lambda>name. [])(''byValue'' := [([str_a, key_k1], []), ([str_b, key_k1], [])])\<rparr>"
  by (simp add: db4_def db1_eq run strings)

lemma put_high: "put one_index uffff str_a empty_database = (Inr (), db5)"
  by (simp add: db5_def) (simp add: run empty_database_def strings)

lemma db5_eq:
  "db5 = \<lparr>main = [(uffff, str_a)], index_sub = (\<lambda>name. [])(''byValue'' := [([str_a, uffff], [])])\<rparr>"
  by (simp add: db5_def run empty_database_def strings)

lemma put_db6: "put one_index key_k2 str_a empty_database = (Inr (), db6)"
  by (simp add: db6_def) (simp add: run empty_database_def strings)

lemma db6_eq:
  "db6 = \<lparr>main = [(key_k2, str_a)], index_sub = (\<lambda>name. [])(''byValue'' := [([str_a, key_k2], [])])\<rparr>"
  by (simp add: db6_def run empty_database_def strings)

lemma put_db7: "put one_index key_k2 str_ab db6 = (Inr (), db7)"
  by (simp add: db7_def) (simp add: run strings)

lemma db7_eq:
  "db7 = \<lparr>main = [(key_k2, str_ab)],
     index_sub = (\<lambda>name. [])(''byValue'' := [([str_a, key_k2], []), ([str_ab, key_k2], [])])\<rparr>"
  by (simp add: db7_def db6_eq run strings)

lemma put_db8: "put one_index key_k1 str_a db7 = (Inr (), db8)"
  by (simp add: db8_def) (simp add: run strings)

lemma db8_eq:
  "db8 = \<lparr>main = [(key_k1, str_a), (key_k2, str_ab)],
     index_sub = (\<lambda>name. [])(''byValue'' :=
       [([str_a, key_k1], []), ([str_a, key_k2], []), ([str_ab, key_k2], [])])\<rparr>"
  by (simp add: db8_def db7_eq run strings)

lemma one_index_byValue: "index_property one_index ''byValue'' = Own by_value"
  by (simp add: index_property_def one_index_def)

section \<open>Properties of put, del and query\<close>

text \<open>
  C1: the collection invariant (for every key present with value \<open>V\<close> and every index,
  exactly one entry \<open>[getter(V), key]\<close> and no other entry for the key) does not hold
  after every put. After \<open>put("k1", "a")\<close> and \<open>put("k1", "b")\<close> on the empty
  collection both puts have returned, the key holds \<open>"b"\<close>, and the index sublevel holds
  two entries for the key, one of them for the previous value.
\<close>

theorem put_overwrite_leaves_stale_entry:
  "put one_index key_k1 str_a empty_database = (Inr (), db1) \<and>
   put one_index key_k1 str_b db1 = (Inr (), db4) \<and>
   get db4 key_k1 = Some str_b \<and> getter by_value str_b = Inr (Some str_b) \<and>
   index_sub db4 ''byValue'' = [([str_a, key_k1], []), ([str_b, key_k1], [])]"
proof -
  have "put one_index key_k1 str_a empty_database = (Inr (), db1)"
    by (simp add: db1_def) (simp add: run strings)
  then show ?thesis
    by (simp add: put_db1_again) (simp add: db4_eq get_def sub_get_def by_value_def strings)
qed

text \<open>
  C2: after \<open>put("k1", "a")\<close> and then \<open>put("k1", "b")\<close>, the query for the old index
  value \<open>"a"\<close> still scans the key and returns its record, which is now \<open>"b"\<close>; the query
  for \<open>"b"\<close> returns it once.
\<close>

theorem query_old_value_after_overwrite:
  "query one_index ''byValue'' str_a db4 = (Inr [str_b], db4) \<and>
   scan db4 ''byValue'' str_a = [Some key_k1] \<and>
   query one_index ''byValue'' str_b db4 = (Inr [str_b], db4)"
  by (simp add: query_own [OF one_index_byValue] scan_def iterator_def db4_eq get_def
      sub_get_def strings)

text \<open>
  C3: after \<open>put(uffff, "a")\<close> on the empty collection the put has returned, \<open>get\<close>
  of the key is the record and the getter is defined on it, and the query for its index
  value returns no record: the entry of the key is the upper bound of the scan itself.
\<close>

theorem put_high_key_not_queried:
  "put one_index uffff str_a empty_database = (Inr (), db5) \<and>
   get db5 uffff = Some str_a \<and> getter by_value str_a = Inr (Some str_a) \<and>
   query one_index ''byValue'' str_a db5 = (Inr [], db5)"
proof -
  have "getter by_value str_a = Inr (Some str_a)" by (simp add: by_value_def strings)
  moreover have "get db5 uffff = Some str_a" by (simp add: db5_eq get_def sub_get_def)
  moreover have "query one_index ''byValue'' str_a db5 = (Inr [], db5)"
    by (simp add: query_own [OF one_index_byValue] scan_def iterator_def db5_eq)
  ultimately show ?thesis by (simp add: put_high)
qed

text \<open>
  C4: for a key that is present, once \<open>del\<close> has returned, \<open>get\<close> of the key is
  \<open>undefined\<close>, and no query on any index, for any value, returns a record that comes
  from the key: whatever a query returns is the list of the records of the scanned keys
  other than the deleted one.
\<close>

theorem del_then_get_query:
  assumes "get s key = Some oldValue" and "del indexes key s = (Inr (), s')"
  shows "get s' key = None \<and>
    (\<forall>name value rs s''. query indexes name value s' = (Inr rs, s'') \<longrightarrow>
       rs = List.map_filter (\<lambda>ko. Option.bind ko (get s'))
              (filter (\<lambda>ko. ko \<noteq> Some key) (scan s' name value)))"
proof -
  have gone: "get s' key = None"
    by (simp add: get_def del_returns [OF assms] sub_get_sub_del)
  have "rs = List.map_filter (\<lambda>ko. Option.bind ko (get s'))
              (filter (\<lambda>ko. ko \<noteq> Some key) (scan s' name v))"
    if q: "query indexes name v s' = (Inr rs, t)" for name v rs t
  proof (cases "index_property indexes name")
    case Undefined
    with q show ?thesis by (simp add: query_def)
  next
    case Inherited
    with q show ?thesis by (simp add: query_def)
  next
    case (Own config)
    from q query_own [OF Own, of v s']
    have "rs = List.map_filter (\<lambda>ko. Option.bind ko (get s')) (scan s' name v)" by auto
    moreover have "Option.bind (Some key) (get s') = None" using gone by simp
    ultimately show ?thesis
      using map_filter_skip [of "\<lambda>ko. Option.bind ko (get s')" "Some key" "scan s' name v"]
      by simp
  qed
  with gone show ?thesis by blast
qed

theorem del_then_get_query_witness:
  "get db2 key_k1 = Some str_a \<and> del one_index key_k1 db2 = (Inr (), db3) \<and>
   get db3 key_k1 = None \<and> query one_index ''byValue'' str_a db3 = (Inr [], db3) \<and>
   [] = List.map_filter (\<lambda>ko. Option.bind ko (get db3))
          (filter (\<lambda>ko. ko \<noteq> Some key_k1) (scan db3 ''byValue'' str_a))"
proof -
  have present: "get db2 key_k1 = Some str_a"
    by (simp add: db2_eq get_def sub_get_def)
  have q: "query one_index ''byValue'' str_a db3 = (Inr [], db3)"
    by (simp add: query_own [OF one_index_byValue] scan_def iterator_def db3_eq strings)
  from del_then_get_query [OF present del_db2] present del_db2 q show ?thesis by blast
qed

text \<open>
  C5: the upper bound of the scan is built from a fixed string, which is itself a
  possible primary key. With that key stored, its entry \<open>[value, key]\<close> is in the index
  sublevel and equals the upper bound, so it is not strictly below it and the scan does
  not yield the key.
\<close>

theorem scan_misses_high_key:
  "([str_a, uffff], []) \<in> set (index_sub db5 ''byValue'') \<and>
   \<not> [str_a, uffff] < [str_a, uffff] \<and>
   iterator [str_a] [str_a, uffff] (index_sub db5 ''byValue'') = [] \<and>
   scan db5 ''byValue'' str_a = []"
  by (simp add: scan_def iterator_def db5_eq)

text \<open>
  C6: after \<open>put("k2", "a")\<close>, \<open>put("k2", "ab")\<close> and \<open>put("k1", "a")\<close> on the empty
  collection, the two keys hold records whose index values are \<open>"a"\<close> and \<open>"ab"\<close>, and
  the query for \<open>"a"\<close> returns both records: the entry \<open>["a", "k2"]\<close> of the overwritten
  record is still in the index sublevel.
\<close>

theorem query_a_returns_record_under_ab:
  "put one_index key_k2 str_a empty_database = (Inr (), db6) \<and>
   put one_index key_k2 str_ab db6 = (Inr (), db7) \<and>
   put one_index key_k1 str_a db7 = (Inr (), db8) \<and>
   get db8 key_k1 = Some str_a \<and> getter by_value str_a = Inr (Some str_a) \<and>
   get db8 key_k2 = Some str_ab \<and> getter by_value str_ab = Inr (Some str_ab) \<and>
   index_sub db8 ''byValue'' = [([str_a, key_k1], []), ([str_a, key_k2], []), ([str_ab, key_k2], [])] \<and>
   query one_index ''byValue'' str_a db8 = (Inr [str_a, str_ab], db8)"
proof -
  have "getter by_value str_a = Inr (Some str_a)" "getter by_value str_ab = Inr (Some str_ab)"
    by (simp_all add: by_value_def strings)
  moreover have "get db8 key_k1 = Some str_a" "get db8 key_k2 = Some str_ab"
    by (simp_all add: db8_eq get_def sub_get_def strings)
  moreover have "index_sub db8 ''byValue'' =
      [([str_a, key_k1], []), ([str_a, key_k2], []), ([str_ab, key_k2], [])]"
    by (simp add: db8_eq)
  moreover have "query one_index ''byValue'' str_a db8 = (Inr [str_a, str_ab], db8)"
    by (simp add: query_own [OF one_index_byValue] scan_def iterator_def db8_eq get_def
        sub_get_def strings)
  ultimately show ?thesis by (simp add: put_db6 put_db7 put_db8)
qed

text \<open>
  C7: for a key that is absent from the main sublevel, \<open>del\<close> returns successfully and
  is a no-op: it stages no operation (no batch is created) and the main sublevel and
  every index sublevel are as before.
\<close>

theorem del_absent_is_noop:
  "get s key = None \<Longrightarrow> del indexes key s = (Inr (), s) \<and> del_batch indexes key s = None"
  by (simp add: del_def del_batch_def)

theorem del_absent_is_noop_witness:
  "get db1 key_k2 = None \<and> del one_index key_k2 db1 = (Inr (), db1) \<and>
   del_batch one_index key_k2 db1 = None"
proof -
  have absent: "get db1 key_k2 = None"
    by (simp add: db1_eq get_def sub_get_def strings)
  from del_absent_is_noop [OF absent, of one_index] absent show ?thesis by simp
qed

text \<open>
  C8: a name that is not registered but is a member of \<open>Object.prototype\<close> passes the
  test of line 168, and the query fails with a \<open>TypeError\<close> instead of the error for an
  index that is not defined. The database is unchanged.
\<close>

theorem query_toString:
  "map_of one_index ''toString'' = None \<and>
   query one_index ''toString'' str_a db1 = (Inl Type_error, db1) \<and>
   query one_index ''byName'' str_a db1 = (Inl (Index_not_defined ''byName''), db1)"
  by (simp add: query_def index_property_def one_index_def object_prototype_def)




text \<open>
  C10: every operation that \<open>put\<close> stages is a put, never a delete; so an entry of an
  index sublevel whose composite key is not one of the keys \<open>[getter(value), key]\<close> of
  this call is still there, with its payload, after the call.
\<close>

theorem put_stages_only_puts:
  assumes "put indexes key value s = (r, s')"
  shows "list_all is_put (fst (put_batch indexes key value)) \<and>
    (\<forall>name ck payload.
       sub_get (index_sub s name) ck = Some payload \<and>
       (\<forall>(n, config) \<in> set indexes. \<forall>iv. getter config value = Inr (Some iv) \<longrightarrow> ck \<noteq> [iv, key]) \<longrightarrow>
       sub_get (index_sub s' name) ck = Some payload)"
proof -
  obtain batch e where pb: "put_indexes indexes key value [Put_main key value] = (batch, e)"
    by (cases "put_indexes indexes key value [Put_main key value]")
  from put_indexes_staged [OF pb] have "\<forall>op \<in> set batch. is_put op" by fastforce
  then have puts: "list_all is_put (fst (put_batch indexes key value))"
    by (simp add: put_batch_def pb list_all_iff)
  have "sub_get (index_sub s' name) ck = Some payload"
    if old: "sub_get (index_sub s name) ck = Some payload"
      and other: "\<forall>(n, config) \<in> set indexes. \<forall>iv. getter config value = Inr (Some iv) \<longrightarrow> ck \<noteq> [iv, key]"
    for name ck payload
  proof (cases e)
    case (Some err)
    with assms pb have "s' = s" by (simp add: put_def put_batch_def)
    with old show ?thesis by simp
  next
    case None
    with assms pb have "put indexes key value s = (Inr (), s')"
      by (simp add: put_def put_batch_def)
    from put_returns(2) [OF this, of name ck] other old show ?thesis by auto
  qed
  with puts show ?thesis by blast
qed

theorem put_stages_only_puts_witness:
  "put one_index key_k2 str_ab db1 = (Inr (), db2) \<and>
   list_all is_put (fst (put_batch one_index key_k2 str_ab)) \<and>
   sub_get (index_sub db1 ''byValue'') [str_a, key_k1] = Some [] \<and>
   sub_get (index_sub db2 ''byValue'') [str_a, key_k1] = Some []"
proof -
  have old: "sub_get (index_sub db1 ''byValue'') [str_a, key_k1] = Some []"
    by (simp add: db1_eq sub_get_def)
  have other: "\<forall>(n, config) \<in> set one_index. \<forall>iv. getter config str_ab = Inr (Some iv) \<longrightarrow>
      [str_a, key_k1] \<noteq> [iv, key_k2]"
    by (simp add: one_index_def by_value_def strings)
  from put_stages_only_puts [OF put_db1] old other put_db1 show ?thesis by blast
qed

end
